theory Spec2Isabelle
  imports Complex_Main
begin

section \<open>The FloatingContributors component\<close>

text \<open>
  A shallow embedding of \<^verbatim>\<open>src/components/FloatingContributors/index.tsx\<close>.
  Millisecond timestamps and contribution counts are integers (\<open>Date.now()\<close> and the
  GitHub API deliver integers). A JavaScript number that may be \<open>NaN\<close> is an
  \<open>int option\<close> with \<open>None\<close> for \<open>NaN\<close>; a read that may give \<open>undefined\<close> is an
  option as well. A value of \<open>Math.random()\<close> is a double, given by its mantissa and
  exponent, and its product with an array length is rounded as the double product is.
  The values returned by \<open>Date.now()\<close>, \<open>Math.random()\<close> and the network are inputs of
  the model.
\<close>

subsection \<open>Data model\<close>

text \<open>\<^verbatim>\<open>interface Contributor\<close>; the field \<^verbatim>\<open>id\<close> is \<open>id_c\<close> here.\<close>

record Contributor =
  id_c :: string
  login :: string
  avatar_url :: string
  contributions :: int
  html_url :: string
  lastActivity :: "int option"

datatype action = CheckedIn | Contributed | Starred | Forked

text \<open>\<^verbatim>\<open>interface ContributorActivity\<close>.\<close>

record ContributorActivity =
  contributor :: Contributor
  action :: "action option"
  timestamp :: "int option"

text \<open>
  One element of the JSON array of the contributors endpoint. Anonymous contributors
  come without a login, which the code tests for; the other fields it reads are present.
\<close>

record GitHubContributor =
  gh_id :: int
  gh_login :: "string option"
  gh_type :: string
  gh_avatar_url :: string
  gh_contributions :: int
  gh_html_url :: string

text \<open>
  What one \<^verbatim>\<open>fetch\<close> followed by \<^verbatim>\<open>response.json()\<close> can give: a rejected
  promise, a response that is not \<^verbatim>\<open>ok\<close> (with its status), a JSON body that is not
  an array, or an array.
\<close>

datatype 'a fetched = Rejected | NotOk nat | NotArray | JsonArray "'a list"

text \<open>
  A repository of the listing, together with what the request for its contributors
  is answered with.
\<close>

record repo =
  full_name :: string
  name :: string
  contributorsResponse :: "GitHubContributor fetched"

subsection \<open>Double-precision numbers\<close>

text \<open>
  A non-negative double: the number \<open>mantissa * 2 ^ exponent\<close>, with a mantissa of at most
  53 bits and an exponent from \<open>-1074\<close> on.
\<close>

record double =
  mantissa :: int
  exponent :: int

definition is_double :: "double \<Rightarrow> bool" where
  "is_double d \<longleftrightarrow>
     0 \<le> mantissa d \<and> mantissa d < 2 ^ 53 \<and> - 1074 \<le> exponent d \<and> exponent d \<le> 971"

definition double_value :: "double \<Rightarrow> real" where
  "double_value d =
     (if 0 \<le> exponent d then of_int (mantissa d) * 2 ^ nat (exponent d)
      else of_int (mantissa d) / 2 ^ nat (- exponent d))"

text \<open>The number of low bits a non-negative integer has beyond 53.\<close>

function excess :: "int \<Rightarrow> nat" where
  "excess N = (if N < 2 ^ 53 then 0 else Suc (excess (N div 2)))"
  by pat_completeness auto
termination
  by (relation "measure nat") auto

declare excess.simps [simp del]

text \<open>
  The product \<^verbatim>\<open>d * n\<close> of a double and a small array length, as IEEE 754 rounds it:
  the exact product keeps its 53 leading bits, rounded to the nearest, a tie to the
  even mantissa. Rounding up may give the mantissa \<open>2 ^ 53\<close>, which is the double with
  the mantissa \<open>2 ^ 52\<close> and the next exponent. A product below \<open>2 ^ 53\<close> units is exact.
\<close>

definition times_double :: "double \<Rightarrow> nat \<Rightarrow> double" where
  "times_double d n =
     (let N = mantissa d * int n;
          s = excess N;
          q = N div 2 ^ s;
          r = N mod 2 ^ s;
          q' = (if 2 * r > 2 ^ s \<or> (2 * r = 2 ^ s \<and> odd q) then q + 1 else q)
      in \<lparr>mantissa = q', exponent = exponent d + int s\<rparr>)"

text \<open>\<^verbatim>\<open>Math.floor\<close> of a double.\<close>

definition Math_floor :: "double \<Rightarrow> int" where
  "Math_floor d =
     (if 0 \<le> exponent d then mantissa d * 2 ^ nat (exponent d)
      else mantissa d div 2 ^ nat (- exponent d))"

text \<open>
  Everything one run of \<^verbatim>\<open>fetchLiveContributors\<close> reads from outside: the answer to
  the repository listing, and the values of the successive calls of \<open>Date.now()\<close> and
  \<open>Math.random()\<close> (the \<open>k\<close>-th call returns \<open>dateNow w k\<close>, \<open>mathRandom w k\<close>).
\<close>

record world =
  reposResponse :: "repo fetched"
  dateNow :: "nat \<Rightarrow> int"
  mathRandom :: "nat \<Rightarrow> double"

datatype error = FetchRejected | GitHubApiError nat | InvalidReposResponse | NoContributorsFound

subsection \<open>Numbers as text\<close>

definition digits :: string where
  "digits = ''0123456789''"

function numberToString_nat :: "nat \<Rightarrow> string" where
  "numberToString_nat n =
     (if n < 10 then [digits ! n]
      else numberToString_nat (n div 10) @ [digits ! (n mod 10)])"
  by pat_completeness auto
termination
  by (relation "measure (\<lambda>n. n)") auto

declare numberToString_nat.simps [simp del]

text \<open>The decimal text of an integer, as a template literal or \<^verbatim>\<open>toString()\<close> gives it.\<close>

definition numberToString :: "int \<Rightarrow> string" where
  "numberToString i =
     (if i < 0 then CHR ''-'' # numberToString_nat (nat (- i)) else numberToString_nat (nat i))"

subsection \<open>Array reads\<close>

text \<open>\<^verbatim>\<open>xs[i]\<close> for an integer \<open>i\<close>: \<open>None\<close> is \<^verbatim>\<open>undefined\<close>, out of range.\<close>

definition at_index :: "'a list \<Rightarrow> int \<Rightarrow> 'a option" where
  "at_index xs i = (if 0 \<le> i \<and> i < int (length xs) then Some (xs ! nat i) else None)"

subsection \<open>Synthesized timestamps and actions\<close>

definition timeOffsets :: "int list" where
  "timeOffsets =
     [30 * 1000,
      2 * 60 * 1000,
      5 * 60 * 1000,
      10 * 60 * 1000,
      30 * 60 * 1000,
      60 * 60 * 1000,
      2 * 60 * 60 * 1000,
      24 * 60 * 60 * 1000,
      2 * 24 * 60 * 60 * 1000]"

text \<open>
  \<^verbatim>\<open>generateRandomTimestamp\<close>, given the values \<open>now\<close> of \<open>Date.now()\<close> and \<open>r\<close> of
  \<open>Math.random()\<close>. Subtracting \<^verbatim>\<open>undefined\<close> gives \<open>NaN\<close>.
\<close>

definition generateRandomTimestamp :: "int \<Rightarrow> double \<Rightarrow> int option" where
  "generateRandomTimestamp now r =
     (case at_index timeOffsets (Math_floor (times_double r (length timeOffsets))) of
        None \<Rightarrow> None
      | Some randomOffset \<Rightarrow> Some (now - randomOffset))"

definition actions :: "action list" where
  "actions = [CheckedIn, Contributed, Starred, Forked]"

definition getRandomAction :: "double \<Rightarrow> action option" where
  "getRandomAction r = at_index actions (Math_floor (times_double r (length actions)))"

fun getActionText :: "action option \<Rightarrow> string" where
  "getActionText (Some CheckedIn) = ''Checked-in''"
| "getActionText (Some Contributed) = ''Contributed''"
| "getActionText (Some Starred) = ''Starred''"
| "getActionText (Some Forked) = ''Forked''"
| "getActionText None = ''Active''"

subsection \<open>Relative time\<close>

definition formatTimeAgo :: "int \<Rightarrow> int \<Rightarrow> string" where
  "formatTimeAgo currentTime ts =
     (let now = currentTime;
          diffInSeconds = (now - ts) div 1000
      in if diffInSeconds < 60
         then (if diffInSeconds \<le> 30 then ''just now''
               else numberToString diffInSeconds @ '' seconds ago'')
         else
           let diffInMinutes = diffInSeconds div 60
           in if diffInMinutes < 60
              then (if diffInMinutes = 1 then ''1 minute ago''
                    else numberToString diffInMinutes @ '' minutes ago'')
              else
                let diffInHours = diffInMinutes div 60
                in if diffInHours < 24
                   then (if diffInHours = 1 then ''1 hour ago''
                         else numberToString diffInHours @ '' hours ago'')
                   else
                     let diffInDays = diffInHours div 24
                     in if diffInDays = 1 then ''1 day ago''
                        else numberToString diffInDays @ '' days ago'')"

text \<open>On \<open>NaN\<close> every comparison of \<^verbatim>\<open>formatTimeAgo\<close> is false.\<close>

definition formatTimeAgo_number :: "int \<Rightarrow> int option \<Rightarrow> string" where
  "formatTimeAgo_number currentTime ts =
     (case ts of None \<Rightarrow> ''NaN days ago'' | Some t \<Rightarrow> formatTimeAgo currentTime t)"

subsection \<open>Merging the contributors of the repositories\<close>

text \<open>
  The \<^verbatim>\<open>Map<string, Contributor>\<close>, in insertion order: \<^verbatim>\<open>set\<close> on a key that is
  present replaces the value where it stands, on a new key it appends.
\<close>

type_synonym contributorsMap = "(string \<times> Contributor) list"

fun map_set :: "string \<Rightarrow> Contributor \<Rightarrow> contributorsMap \<Rightarrow> contributorsMap" where
  "map_set k v [] = [(k, v)]"
| "map_set k v (p # ps) = (if fst p = k then (k, v) # ps else p # map_set k v ps)"

text \<open>
  The callback of \<^verbatim>\<open>repoContributors.forEach\<close>. The state is the map and the number
  of calls of \<^verbatim>\<open>generateRandomTimestamp\<close> so far. A login is truthy when it is present
  and not the empty string.
\<close>

definition addContributor ::
  "world \<Rightarrow> contributorsMap \<times> nat \<Rightarrow> GitHubContributor \<Rightarrow> contributorsMap \<times> nat" where
  "addContributor w st c =
     (case st of (contributorsMap, k) \<Rightarrow>
        (case gh_login c of
           None \<Rightarrow> (contributorsMap, k)
         | Some l \<Rightarrow>
             if l \<noteq> [] \<and> gh_type c = ''User'' then
               (case map_of contributorsMap l of
                  Some existing \<Rightarrow>
                    (map_set l (existing\<lparr>contributions := contributions existing + gh_contributions c\<rparr>)
                       contributorsMap, k)
                | None \<Rightarrow>
                    (map_set l
                       \<lparr>id_c = numberToString (gh_id c),
                        login = l,
                        avatar_url = gh_avatar_url c,
                        contributions = gh_contributions c,
                        html_url = gh_html_url c,
                        lastActivity = generateRandomTimestamp (dateNow w k) (mathRandom w k)\<rparr>
                       contributorsMap, Suc k))
             else (contributorsMap, k)))"

text \<open>
  One round of the loop over the repositories: a request that fails, is not \<^verbatim>\<open>ok\<close> or
  does not give an array leaves the map as it is.
\<close>

definition mergeRepo :: "world \<Rightarrow> contributorsMap \<times> nat \<Rightarrow> repo \<Rightarrow> contributorsMap \<times> nat" where
  "mergeRepo w st rp =
     (case contributorsResponse rp of
        JsonArray repoContributors \<Rightarrow> foldl (addContributor w) st repoContributors
      | _ \<Rightarrow> st)"

definition mergeRepos :: "world \<Rightarrow> repo list \<Rightarrow> contributorsMap \<times> nat" where
  "mergeRepos w repos = foldl (mergeRepo w) ([], 0) repos"

subsection \<open>Sorting\<close>

text \<open>
  \<^verbatim>\<open>Array.prototype.sort\<close> with a comparator: a stable sort that puts \<open>a\<close> before \<open>b\<close>
  when \<open>cmp a b < 0\<close>.
\<close>

fun insertBy :: "('a \<Rightarrow> 'a \<Rightarrow> int) \<Rightarrow> 'a \<Rightarrow> 'a list \<Rightarrow> 'a list" where
  "insertBy cmp x [] = [x]"
| "insertBy cmp x (y # ys) = (if cmp x y \<le> 0 then x # y # ys else y # insertBy cmp x ys)"

definition sortBy :: "('a \<Rightarrow> 'a \<Rightarrow> int) \<Rightarrow> 'a list \<Rightarrow> 'a list" where
  "sortBy cmp xs = foldr (insertBy cmp) xs []"

subsection \<open>One run of fetchLiveContributors\<close>

definition synthesizeActivities :: "world \<Rightarrow> nat \<Rightarrow> Contributor list \<Rightarrow> ContributorActivity list" where
  "synthesizeActivities w k cs =
     map (\<lambda>(i, c). \<lparr>contributor = c,
                    action = getRandomAction (mathRandom w (k + i)),
                    timestamp = lastActivity c\<rparr>)
       (zip [0 ..< length cs] cs)"

text \<open>
  The \<^verbatim>\<open>try\<close> block: \<open>Inl\<close> is the error thrown to the \<^verbatim>\<open>catch\<close>, \<open>Inr\<close> the
  arguments of \<^verbatim>\<open>setContributors\<close> and \<^verbatim>\<open>setActivities\<close>.
\<close>

definition fetchLiveContributors ::
  "world \<Rightarrow> error + Contributor list \<times> ContributorActivity list" where
  "fetchLiveContributors w =
     (case reposResponse w of
        Rejected \<Rightarrow> Inl FetchRejected
      | NotOk status \<Rightarrow> Inl (GitHubApiError status)
      | NotArray \<Rightarrow> Inl InvalidReposResponse
      | JsonArray repos \<Rightarrow>
          (case mergeRepos w (take 8 repos) of (contributorsMap, k) \<Rightarrow>
             let liveContributors =
                   take 15 (sortBy (\<lambda>a b. contributions b - contributions a)
                              (map snd contributorsMap))
             in if length liveContributors > 0
                then Inr (liveContributors, synthesizeActivities w k liveContributors)
                else Inl NoContributorsFound))"

subsection \<open>Component state, rendering and events\<close>

text \<open>
  The seven state variables of the component, the runs of \<^verbatim>\<open>fetchLiveContributors\<close>
  that have not settled yet (each with the \<^verbatim>\<open>retryCount\<close> its closure holds) and the
  retry timeouts that have not fired yet (each with its delay in milliseconds).
\<close>

record state =
  contributors :: "Contributor list"
  activities :: "ContributorActivity list"
  currentActivityIndex :: nat
  isVisible :: bool
  loading :: bool
  currentTime :: int
  retryCount :: nat
  inFlight :: "nat list"
  retryTimers :: "nat list"

record card =
  shownActivity :: ContributorActivity
  actionText :: string
  timeAgo :: string
  contributorsCount :: nat
  gridAvatars :: "Contributor list"
  moreCount :: "nat option"

text \<open>
  What the render function returns: the loading placeholder, \<^verbatim>\<open>null\<close>, the
  \<^verbatim>\<open>AnimatePresence\<close> element with the card or with no child, or a \<^verbatim>\<open>TypeError\<close>
  thrown by reading a property of \<^verbatim>\<open>undefined\<close>.
\<close>

datatype rendered = LoadingPlaceholder | Null | AnimatePresence "card option" | TypeError

definition render :: "state \<Rightarrow> rendered" where
  "render s =
     (if loading s then LoadingPlaceholder
      else if length (activities s) = 0 then Null
      else
        let currentActivity = at_index (activities s) (int (currentActivityIndex s))
        in if isVisible s then
             (case currentActivity of
                None \<Rightarrow> TypeError
              | Some a \<Rightarrow>
                  AnimatePresence (Some
                    \<lparr>shownActivity = a,
                     actionText = getActionText (action a),
                     timeAgo = formatTimeAgo_number (currentTime s) (timestamp a),
                     contributorsCount = length (contributors s),
                     gridAvatars = take 8 (contributors s),
                     moreCount = (if length (contributors s) > 8
                             then Some (length (contributors s) - 8) else None)\<rparr>))
           else AnimatePresence None)"

text \<open>
  The effect with the dependency \<^verbatim>\<open>[retryCount]\<close>: after an update that changed
  \<^verbatim>\<open>retryCount\<close> it starts a run of \<^verbatim>\<open>fetchLiveContributors\<close>, which sets
  \<^verbatim>\<open>loading\<close>. An update to the same value starts nothing.
\<close>

definition fetchEffect :: "state \<Rightarrow> state \<Rightarrow> state" where
  "fetchEffect before s =
     (if retryCount s = retryCount before then s
      else s\<lparr>loading := True, inFlight := inFlight s @ [retryCount s]\<rparr>)"

definition remove_nth :: "nat \<Rightarrow> 'a list \<Rightarrow> 'a list" where
  "remove_nth i xs = take i xs @ drop (Suc i) xs"

datatype event =
    FetchSettles nat world
  | RetryTimeout nat
  | RefreshInterval
  | ClockInterval int
  | RotationInterval
  | CloseClick

text \<open>
  One event of the component's lifetime. \<open>FetchSettles i w\<close>: the \<open>i\<close>-th pending run of
  \<^verbatim>\<open>fetchLiveContributors\<close> finishes, having read \<open>w\<close>; its state updates are applied
  together, in one render, as React batches them. \<open>RetryTimeout i\<close>: the \<open>i\<close>-th pending
  retry timeout fires. The three intervals tick; the rotation interval exists while the
  activity list is not empty and holds the current length of the list, since its effect
  runs again whenever that length changes. \<open>CloseClick\<close>: the close button is clicked,
  which takes the card on screen.
\<close>

fun step :: "state \<Rightarrow> event \<Rightarrow> state" where
  "step s (FetchSettles i w) =
     (if i < length (inFlight s) then
        let rc = inFlight s ! i;
            s1 = s\<lparr>inFlight := remove_nth i (inFlight s)\<rparr>
        in (case fetchLiveContributors w of
              Inr (liveContributors, acts) \<Rightarrow>
                fetchEffect s1
                  (s1\<lparr>contributors := liveContributors,
                      activities := acts,
                      retryCount := 0,
                      loading := False\<rparr>)
            | Inl err \<Rightarrow>
                s1\<lparr>retryTimers := retryTimers s1 @ (if rc < 3 then [5000 * (rc + 1)] else []),
                   loading := False\<rparr>)
      else s)"
| "step s (RetryTimeout i) =
     (if i < length (retryTimers s) then
        let s1 = s\<lparr>retryTimers := remove_nth i (retryTimers s)\<rparr>
        in fetchEffect s1 (s1\<lparr>retryCount := retryCount s1 + 1\<rparr>)
      else s)"
| "step s RefreshInterval = fetchEffect s (s\<lparr>retryCount := 0\<rparr>)"
| "step s (ClockInterval t) = s\<lparr>currentTime := t\<rparr>"
| "step s RotationInterval =
     (if length (activities s) = 0 then s
      else s\<lparr>currentActivityIndex := (currentActivityIndex s + 1) mod length (activities s)\<rparr>)"
| "step s CloseClick =
     (case render s of
        AnimatePresence (Some c) \<Rightarrow> s\<lparr>isVisible := False\<rparr>
      | _ \<Rightarrow> s)"

text \<open>The component as mounted at time \<open>t\<close>: the first run of the fetch is pending.\<close>

definition mount :: "int \<Rightarrow> state" where
  "mount t =
     \<lparr>contributors = [], activities = [], currentActivityIndex = 0, isVisible = True,
      loading = True, currentTime = t, retryCount = 0, inFlight = [0], retryTimers = []\<rparr>"

definition run :: "state \<Rightarrow> event list \<Rightarrow> state" where
  "run s evs = foldl step s evs"

section \<open>Specification-side notions\<close>

text \<open>
  A record of the contributors endpoint passes the guard of the merge when it has a
  non-empty login and its account type is \<^verbatim>\<open>User\<close>.
\<close>

definition eligible :: "GitHubContributor \<Rightarrow> bool" where
  "eligible c =
     (case gh_login c of None \<Rightarrow> False | Some l \<Rightarrow> l \<noteq> [] \<and> gh_type c = ''User'')"

text \<open>The contributor list a repository delivered, empty when its request gave none.\<close>

definition arrayOf :: "repo \<Rightarrow> GitHubContributor list" where
  "arrayOf rp = (case contributorsResponse rp of JsonArray cs \<Rightarrow> cs | _ \<Rightarrow> [])"

definition fetchedRecords :: "repo list \<Rightarrow> GitHubContributor list" where
  "fetchedRecords repos = concat (map arrayOf repos)"

text \<open>The fields of a merged entry that come from the fetched records.\<close>

definition summary :: "Contributor \<Rightarrow> string \<times> string \<times> string \<times> string \<times> int" where
  "summary c = (id_c c, login c, avatar_url c, html_url c, contributions c)"

text \<open>
  The merge as the specification words it: a login has an entry when some eligible
  record carries it; the entry has the id, avatar and profile URL of the first such
  record and the sum of the contribution counts of all of them.
\<close>

definition merged_spec ::
  "GitHubContributor list \<Rightarrow> string \<Rightarrow> (string \<times> string \<times> string \<times> string \<times> int) option" where
  "merged_spec rs l =
     (let same = filter (\<lambda>c. gh_login c = Some l) (filter eligible rs)
      in case same of
           [] \<Rightarrow> None
         | first # rest \<Rightarrow>
             Some (numberToString (gh_id first), l, gh_avatar_url first, gh_html_url first,
                   sum_list (map gh_contributions same)))"

definition merge_inv :: "contributorsMap \<Rightarrow> GitHubContributor list \<Rightarrow> bool" where
  "merge_inv m rs \<longleftrightarrow>
     distinct (map fst m) \<and> (\<forall>l. map_option summary (map_of m l) = merged_spec rs l)"

text \<open>A timestamp that is the value of some call of \<open>Date.now()\<close> minus one of the offsets.\<close>

definition synthesized :: "world \<Rightarrow> int option \<Rightarrow> bool" where
  "synthesized w ts \<longleftrightarrow>
     (\<exists>k i. i < length timeOffsets \<and> ts = Some (dateNow w k - timeOffsets ! i))"

definition state_inv :: "state \<Rightarrow> bool" where
  "state_inv s \<longleftrightarrow>
     sorted_wrt (\<lambda>a b. contributions a \<ge> contributions b) (contributors s)
     \<and> length (contributors s) \<le> 15
     \<and> map contributor (activities s) = contributors s
     \<and> map timestamp (activities s) = map lastActivity (contributors s)"

text \<open>
  The lists that the most recent successful run of the fetch among the events \<open>evs\<close>
  delivered, starting in the state \<open>s\<close>; \<open>acc\<close> when no run succeeded.
\<close>

fun lastFetched ::
  "Contributor list \<times> ContributorActivity list \<Rightarrow> state \<Rightarrow> event list
     \<Rightarrow> Contributor list \<times> ContributorActivity list" where
  "lastFetched acc s [] = acc"
| "lastFetched acc s (ev # evs) =
     lastFetched
       (case ev of
          FetchSettles i w \<Rightarrow>
            (if i < length (inFlight s)
             then (case fetchLiveContributors w of Inr p \<Rightarrow> p | Inl err \<Rightarrow> acc)
             else acc)
        | _ \<Rightarrow> acc)
       (step s ev) evs"

subsection \<open>Example inputs\<close>

text \<open>A repository listing answered with status 403, as under the API's rate limit.\<close>

definition failedListing :: world where
  "failedListing =
     \<lparr>reposResponse = NotOk 403, dateNow = (\<lambda>k. 0),
      mathRandom = (\<lambda>k. \<lparr>mantissa = 0, exponent = 0\<rparr>)\<rparr>"

definition alice :: GitHubContributor where
  "alice = \<lparr>gh_id = 1, gh_login = Some ''alice'', gh_type = ''User'',
            gh_avatar_url = ''a.png'', gh_contributions = 5, gh_html_url = ''a''\<rparr>"

definition bob :: GitHubContributor where
  "bob = \<lparr>gh_id = 2, gh_login = Some ''bob'', gh_type = ''User'',
          gh_avatar_url = ''b.png'', gh_contributions = 7, gh_html_url = ''b''\<rparr>"

text \<open>A listing of one repository with the contributors \<open>cs\<close>; every draw is \<open>1/2\<close>.\<close>

definition listing :: "GitHubContributor list \<Rightarrow> world" where
  "listing cs =
     \<lparr>reposResponse =
        JsonArray [\<lparr>full_name = ''recodehive/r'', name = ''r'',
                    contributorsResponse = JsonArray cs\<rparr>],
      dateNow = (\<lambda>k. 172800000), mathRandom = (\<lambda>k. \<lparr>mantissa = 1, exponent = - 1\<rparr>)\<rparr>"

text \<open>
  The double \<open>2001599834386887 / 2 ^ 52\<close>, just below \<open>4 / 9\<close>: its exact product with 9 is
  below 4, the double product is 4.
\<close>

definition below_four_ninths :: double where
  "below_four_ninths = \<lparr>mantissa = 2001599834386887, exponent = - 52\<rparr>"

text \<open>The first run and its three retries all fail.\<close>

definition four_failures :: "event list" where
  "four_failures =
     [FetchSettles 0 failedListing, RetryTimeout 0,
      FetchSettles 0 failedListing, RetryTimeout 0,
      FetchSettles 0 failedListing, RetryTimeout 0,
      FetchSettles 0 failedListing]"

section \<open>Relative time formatting\<close>

lemma numberToString_45: "numberToString 45 = ''45''"
  by code_simp

lemma numberToString_2: "numberToString 2 = ''2''"
  by code_simp

lemma div_chain:
  fixes d :: int
  shows "d div 60 div 60 = d div 3600"
    and "d div 3600 div 24 = d div 86400"
    and "d div 60 < 60 \<longleftrightarrow> d < 3600"
    and "d div 3600 < 24 \<longleftrightarrow> d < 86400"
proof -
  show "d div 60 div 60 = d div 3600" "d div 3600 div 24 = d div 86400"
    by (simp_all add: zdiv_zmult2_eq)
  show "d div 60 < 60 \<longleftrightarrow> d < 3600" by linarith
  show "d div 3600 < 24 \<longleftrightarrow> d < 86400" by linarith
qed

text \<open>
  C1. With \<open>d = floor ((now - timestamp) / 1000)\<close>, \<open>formatTimeAgo\<close> returns "just now"
  when \<open>d \<le> 30\<close>, "d seconds ago" when \<open>30 < d < 60\<close>, the whole minutes with singular
  or plural wording when \<open>d < 3600\<close>, the whole hours when \<open>d < 86400\<close>, and the whole
  days otherwise. Differences of 29 s, 45 s, 90 s, 7200 s and 90000 s give "just now",
  "45 seconds ago", "1 minute ago", "2 hours ago" and "1 day ago".
\<close>

theorem formatTimeAgo_rule:
  "formatTimeAgo now ts =
     (let d = (now - ts) div 1000 in
      if d \<le> 30 then ''just now''
      else if d < 60 then numberToString d @ '' seconds ago''
      else if d < 3600 then
        (if d div 60 = 1 then ''1 minute ago''
         else numberToString (d div 60) @ '' minutes ago'')
      else if d < 86400 then
        (if d div 3600 = 1 then ''1 hour ago''
         else numberToString (d div 3600) @ '' hours ago'')
      else
        (if d div 86400 = 1 then ''1 day ago''
         else numberToString (d div 86400) @ '' days ago''))
   \<and> formatTimeAgo (ts + 29 * 1000) ts = ''just now''
   \<and> formatTimeAgo (ts + 45 * 1000) ts = ''45 seconds ago''
   \<and> formatTimeAgo (ts + 90 * 1000) ts = ''1 minute ago''
   \<and> formatTimeAgo (ts + 7200 * 1000) ts = ''2 hours ago''
   \<and> formatTimeAgo (ts + 90000 * 1000) ts = ''1 day ago''"
proof -
  define d where "d = (now - ts) div 1000"
  have general: "formatTimeAgo now ts =
     (let d = (now - ts) div 1000 in
      if d \<le> 30 then ''just now''
      else if d < 60 then numberToString d @ '' seconds ago''
      else if d < 3600 then
        (if d div 60 = 1 then ''1 minute ago''
         else numberToString (d div 60) @ '' minutes ago'')
      else if d < 86400 then
        (if d div 3600 = 1 then ''1 hour ago''
         else numberToString (d div 3600) @ '' hours ago'')
      else
        (if d div 86400 = 1 then ''1 day ago''
         else numberToString (d div 86400) @ '' days ago''))"
    unfolding formatTimeAgo_def Let_def d_def[symmetric] div_chain
    by auto
  have e29: "formatTimeAgo (ts + 29 * 1000) ts = ''just now''"
    by (simp add: formatTimeAgo_def)
  have e45: "formatTimeAgo (ts + 45 * 1000) ts = ''45 seconds ago''"
    by (simp add: formatTimeAgo_def numberToString_45)
  have e90: "formatTimeAgo (ts + 90 * 1000) ts = ''1 minute ago''"
    by (simp add: formatTimeAgo_def)
  have e7200: "formatTimeAgo (ts + 7200 * 1000) ts = ''2 hours ago''"
    by (simp add: formatTimeAgo_def numberToString_2)
  have e90000: "formatTimeAgo (ts + 90000 * 1000) ts = ''1 day ago''"
    by (simp add: formatTimeAgo_def)
  from general e29 e45 e90 e7200 e90000 show ?thesis by blast
qed

text \<open>
  C10. \<open>formatTimeAgo\<close> is defined on every pair of integer times, and whenever
  \<open>now - timestamp\<close> is at most 30000 ms, a timestamp in the future included, it
  returns "just now".
\<close>

theorem formatTimeAgo_just_now:
  assumes "now - ts \<le> 30000"
  shows "formatTimeAgo now ts = ''just now''"
proof -
  from assms have "(now - ts) div 1000 \<le> 30" by linarith
  then show ?thesis by (simp add: formatTimeAgo_def Let_def)
qed

theorem formatTimeAgo_just_now_witness:
  "(1000::int) - 5000 \<le> 30000 \<and> formatTimeAgo 1000 5000 = ''just now''"
  using formatTimeAgo_just_now [of 1000 5000] by simp

section \<open>Synthesized timestamps\<close>

lemma Math_floor_eq: "Math_floor d = \<lfloor>double_value d\<rfloor>"
proof (cases "0 \<le> exponent d")
  case True
  have "\<lfloor>(of_int (mantissa d * 2 ^ nat (exponent d)) :: real)\<rfloor> = mantissa d * 2 ^ nat (exponent d)"
    by (rule floor_of_int)
  with True show ?thesis by (simp add: Math_floor_def double_value_def)
next
  case False
  have "\<lfloor>(of_int (mantissa d) :: real) / of_int (2 ^ nat (- exponent d))\<rfloor>
          = mantissa d div 2 ^ nat (- exponent d)"
    by (rule floor_divide_of_int_eq)
  with False show ?thesis by (simp add: Math_floor_def double_value_def)
qed

lemma excess_le: "N < 2 ^ 53 * 2 ^ j \<Longrightarrow> excess N \<le> j"
proof (induction j arbitrary: N)
  case 0
  then show ?case by (simp add: excess.simps)
next
  case (Suc j)
  show ?case
  proof (cases "N < 2 ^ 53")
    case True
    then show ?thesis by (simp add: excess.simps)
  next
    case False
    define X :: int where "X = 2 ^ 53 * 2 ^ j"
    from Suc.prems have "N < 2 * X" by (simp add: X_def)
    then have "N div 2 < X" by linarith
    from Suc.IH [OF this [unfolded X_def]] False show ?thesis by (simp add: excess.simps [of N])
  qed
qed

lemma excess_fits: "0 \<le> N \<Longrightarrow> N div 2 ^ excess N < 2 ^ 53"
proof (induction N rule: excess.induct)
  case (1 N)
  show ?case
  proof (cases "N < 2 ^ 53")
    case True
    then show ?thesis by (simp add: excess.simps)
  next
    case False
    with 1 have "N div 2 div 2 ^ excess (N div 2) < 2 ^ 53" by simp
    moreover have "excess N = Suc (excess (N div 2))" using False by (simp add: excess.simps [of N])
    ultimately show ?thesis by (simp add: zdiv_zmult2_eq)
  qed
qed

lemma rounded_bounds:
  fixes N :: int
  defines "s \<equiv> excess N"
  defines "q \<equiv> N div 2 ^ s"
  defines "r \<equiv> N mod 2 ^ s"
  defines "q' \<equiv> (if 2 * r > 2 ^ s \<or> (2 * r = 2 ^ s \<and> odd q) then q + 1 else q)"
  shows "2 * (q' * 2 ^ s) \<le> 2 * N + 2 ^ s" and "2 * N \<le> 2 * (q' * 2 ^ s) + 2 ^ s"
proof -
  have N: "N = q * 2 ^ s + r" unfolding q_def r_def by (simp only: div_mult_mod_eq)
  have r: "0 \<le> r" "r < 2 ^ s" unfolding r_def by simp_all
  show "2 * (q' * 2 ^ s) \<le> 2 * N + 2 ^ s"
    using r unfolding q'_def N by (auto simp: algebra_simps)
  show "2 * N \<le> 2 * (q' * 2 ^ s) + 2 ^ s"
    using r unfolding q'_def N by (auto simp: algebra_simps)
qed



lemma div_lt_int:
  fixes a c b :: int
  assumes "0 < c" and "a < b * c"
  shows "a div c < b"
proof -
  have "0 \<le> a mod c" using assms(1) by simp
  moreover have "a = a div c * c + a mod c" by (simp only: div_mult_mod_eq)
  ultimately have "a div c * c \<le> a" by linarith
  with assms(2) have "a div c * c < b * c" by linarith
  then show ?thesis using assms(1) by (simp add: mult_less_cancel_right)
qed

lemma of_int_lt_pow:
  fixes m :: int
  assumes "(of_int m :: real) / 2 ^ k < 1"
  shows "m < 2 ^ k"
  using assms by auto

lemma pos_exp_zero:
  fixes m :: int
  assumes "0 \<le> m" and "(of_int m :: real) * 2 ^ k < 1"
  shows "m = 0"
proof (rule ccontr)
  assume "m \<noteq> 0"
  with assms(1) have "(1::real) \<le> of_int m" by simp
  moreover have "(1::real) \<le> 2 ^ k" by simp
  ultimately have "(1::real) * 1 \<le> of_int m * 2 ^ k" by (intro mult_mono) simp_all
  with assms(2) show False by simp
qed

lemma times_9_floor:
  assumes m0: "0 \<le> mantissa d" and m53: "mantissa d < 2 ^ 53" and lt1: "double_value d < 1"
  shows "0 \<le> Math_floor (times_double d 9) \<and> Math_floor (times_double d 9) < 9"
proof -
  define N where "N = mantissa d * 9"
  define s where "s = excess N"
  define q where "q = N div 2 ^ s"
  define r where "r = N mod 2 ^ s"
  define q' where "q' = (if 2 * r > 2 ^ s \<or> (2 * r = 2 ^ s \<and> odd q) then q + 1 else q)"
  have res: "times_double d 9 = \<lparr>mantissa = q', exponent = exponent d + int s\<rparr>"
    by (simp add: times_double_def Let_def N_def s_def q_def r_def q'_def)
  have N0: "0 \<le> N" using m0 by (simp add: N_def)
  have q0: "0 \<le> q" using N0 by (simp add: q_def pos_imp_zdiv_nonneg_iff)
  have q'0: "0 \<le> q'" using q0 by (simp add: q'_def)
  have "N < 2 ^ 53 * 2 ^ 4" using m53 by (simp add: N_def)
  then have "s \<le> 4" unfolding s_def by (rule excess_le)
  then have "(2::int) ^ s \<le> 2 ^ 4" by (intro power_increasing) simp_all
  then have s16: "(2::int) ^ s \<le> 16" by simp
  have up: "2 * (q' * 2 ^ s) \<le> 2 * N + 2 ^ s"
    unfolding q'_def r_def q_def s_def by (rule rounded_bounds(1))
  show ?thesis
  proof (cases "0 \<le> exponent d")
    case True
    with lt1 have "mantissa d = 0"
      using pos_exp_zero [OF m0, of "nat (exponent d)"] by (simp add: double_value_def)
    then have "N = 0" by (simp add: N_def)
    then have "s = 0" by (simp add: s_def excess.simps)
    with \<open>N = 0\<close> have "q' = 0" by (simp add: q'_def q_def r_def)
    then show ?thesis by (simp add: res Math_floor_def)
  next
    case False
    define k where "k = nat (- exponent d)"
    have e: "exponent d = - int k" using False by (simp add: k_def)
    from lt1 False have "mantissa d < 2 ^ k"
      using of_int_lt_pow [of "mantissa d" k] by (simp add: double_value_def k_def)
    then have "N \<le> 9 * 2 ^ k - 9" by (simp add: N_def)
    with up s16 have R: "q' * 2 ^ s < 9 * 2 ^ k" by linarith
    show ?thesis
    proof (cases "k \<le> s")
      case True
      then have "(2::int) ^ s = 2 ^ (s - k) * 2 ^ k"
        by (simp flip: power_add)
      with R have "(q' * 2 ^ (s - k)) * 2 ^ k < 9 * 2 ^ k" by (simp add: mult.assoc)
      then have "q' * 2 ^ (s - k) < 9" by (simp add: mult_less_cancel_right)
      moreover have "nat (int s - int k) = s - k" by simp
      ultimately show ?thesis using True q'0 by (simp add: res Math_floor_def e)
    next
      case False
      then have split: "(2::int) ^ k = 2 ^ (k - s) * 2 ^ s"
        by (simp flip: power_add)
      with R have "q' * 2 ^ s < (9 * 2 ^ (k - s)) * 2 ^ s" by (simp add: mult.assoc)
      then have "q' < 9 * 2 ^ (k - s)" by (simp add: mult_less_cancel_right)
      then have "q' div 2 ^ (k - s) < 9" by (intro div_lt_int) simp_all
      moreover have "0 \<le> q' div 2 ^ (k - s)" using q'0 by (simp add: pos_imp_zdiv_nonneg_iff)
      moreover have "nat (int k - int s) = k - s" by simp
      ultimately show ?thesis using False by (simp add: res Math_floor_def e)
    qed
  qed
qed


lemma excess_tight: "0 \<le> N \<Longrightarrow> 0 < excess N \<Longrightarrow> 2 ^ 52 \<le> N div 2 ^ excess N"
proof (induction N rule: excess.induct)
  case (1 N)
  show ?case
  proof (cases "N < 2 ^ 53")
    case True
    with "1.prems" show ?thesis by (simp add: excess.simps)
  next
    case False
    have ex: "excess N = Suc (excess (N div 2))" using False by (simp add: excess.simps [of N])
    show ?thesis
    proof (cases "N div 2 < 2 ^ 53")
      case True
      then have "excess (N div 2) = 0" by (simp add: excess.simps)
      moreover have "(2::int) ^ 53 = 2 * 2 ^ 52" by simp
      with False have "2 ^ 52 \<le> N div 2" by linarith
      ultimately show ?thesis by (simp add: ex)
    next
      case half: False
      then have "0 < excess (N div 2)" by (simp add: excess.simps [of "N div 2"])
      with "1.IH" [OF False] "1.prems" have "2 ^ 52 \<le> N div 2 div 2 ^ excess (N div 2)" by simp
      then show ?thesis by (simp add: ex zdiv_zmult2_eq)
    qed
  qed
qed

lemma double_value_powr: "double_value d = of_int (mantissa d) * 2 powr of_int (exponent d)"
proof (cases "0 \<le> exponent d")
  case True
  then have "(2::real) powr of_int (exponent d) = 2 ^ nat (exponent d)"
    by (simp add: powr_real_of_int)
  with True show ?thesis by (simp add: double_value_def)
next
  case False
  then have "(2::real) powr of_int (exponent d) = inverse (2 ^ nat (- exponent d))"
    by (simp add: powr_real_of_int)
  with False show ?thesis by (simp add: double_value_def divide_inverse)
qed

lemma times_exact:
  assumes "mantissa d * int n < 2 ^ 53"
  shows "double_value (times_double d n) = double_value d * real n"
proof -
  from assms have "excess (mantissa d * int n) = 0" by (simp add: excess.simps)
  then have "times_double d n = \<lparr>mantissa = mantissa d * int n, exponent = exponent d\<rparr>"
    by (simp add: times_double_def Let_def)
  then show ?thesis by (simp add: double_value_powr)
qed

lemma times_nearest:
  "2 * \<bar>double_value (times_double d n) - double_value d * real n\<bar>
     \<le> 2 powr of_int (exponent (times_double d n))"
proof -
  define N where "N = mantissa d * int n"
  define s where "s = excess N"
  define q where "q = N div 2 ^ s"
  define r where "r = N mod 2 ^ s"
  define q' where "q' = (if 2 * r > 2 ^ s \<or> (2 * r = 2 ^ s \<and> odd q) then q + 1 else q)"
  define u :: real where "u = 2 powr of_int (exponent d)"
  have res: "times_double d n = \<lparr>mantissa = q', exponent = exponent d + int s\<rparr>"
    by (simp add: times_double_def Let_def N_def s_def q_def r_def q'_def)
  have up: "2 * (q' * 2 ^ s) \<le> 2 * N + 2 ^ s"
    unfolding q'_def r_def q_def s_def by (rule rounded_bounds(1))
  have lo: "2 * N \<le> 2 * (q' * 2 ^ s) + 2 ^ s"
    unfolding q'_def r_def q_def s_def by (rule rounded_bounds(2))
  from up lo have "\<bar>2 * (q' * 2 ^ s) - 2 * N\<bar> \<le> 2 ^ s" by linarith
  then have "(of_int \<bar>2 * (q' * 2 ^ s) - 2 * N\<bar> :: real) \<le> of_int (2 ^ s)"
    by (simp only: of_int_le_iff)
  then have abs: "\<bar>2 * (of_int q' * 2 ^ s) - 2 * (of_int N :: real)\<bar> \<le> 2 ^ s" by simp
  have u0: "0 < u" by (simp add: u_def)
  have pw: "2 powr (real_of_int (exponent d) + real s) = 2 ^ s * u"
    by (simp add: u_def powr_add powr_realpow mult.commute)
  define D :: real where "D = of_int q' * 2 ^ s - of_int N"
  have v1: "double_value (times_double d n) = (of_int q' * 2 ^ s) * u"
    by (simp add: res double_value_powr pw)
  have v2: "double_value d * real n = of_int N * u"
    by (simp add: double_value_powr N_def u_def)
  have "double_value (times_double d n) - double_value d * real n = D * u"
    by (simp only: v1 v2 D_def left_diff_distrib)
  then have "2 * \<bar>double_value (times_double d n) - double_value d * real n\<bar> = \<bar>2 * D\<bar> * u"
    using u0 by (simp add: abs_mult)
  also have "\<bar>2 * D\<bar> \<le> 2 ^ s" using abs by (simp add: D_def algebra_simps)
  then have "\<bar>2 * D\<bar> * u \<le> 2 ^ s * u" using u0 by (simp add: mult_right_mono)
  finally show ?thesis by (simp add: res pw)
qed

lemma times_precision:
  assumes "0 \<le> mantissa d"
  shows "mantissa (times_double d n) \<le> 2 ^ 53"
    and "2 ^ 53 \<le> mantissa d * int n \<Longrightarrow> 2 ^ 52 \<le> mantissa (times_double d n)"
proof -
  define N where "N = mantissa d * int n"
  have N0: "0 \<le> N" using assms by (simp add: N_def)
  have "N div 2 ^ excess N < 2 ^ 53" by (rule excess_fits [OF N0])
  then show "mantissa (times_double d n) \<le> 2 ^ 53"
    by (simp add: times_double_def Let_def N_def)
  assume "2 ^ 53 \<le> mantissa d * int n"
  then have "0 < excess N" by (simp add: N_def excess.simps [of "mantissa d * int n"])
  from excess_tight [OF N0 this] show "2 ^ 52 \<le> mantissa (times_double d n)"
    by (simp add: times_double_def Let_def N_def)
qed


lemma generateRandomTimestamp_index:
  assumes "is_double r" and "double_value r < 1"
  shows "\<exists>i. i < length timeOffsets \<and> Math_floor (times_double r (length timeOffsets)) = int i
            \<and> generateRandomTimestamp now r = Some (now - timeOffsets ! i)"
proof -
  have len: "length timeOffsets = 9" by (simp add: timeOffsets_def)
  define j where "j = Math_floor (times_double r (length timeOffsets))"
  have j: "0 \<le> j \<and> j < int (length timeOffsets)"
    using times_9_floor [of r] assms by (simp add: j_def len is_double_def)
  then have "generateRandomTimestamp now r = Some (now - timeOffsets ! nat j)"
    by (simp add: generateRandomTimestamp_def at_index_def j_def [symmetric])
  moreover have "nat j < length timeOffsets" using j by linarith
  moreover have "j = int (nat j)" using j by simp
  ultimately show ?thesis unfolding j_def by blast
qed

lemma generateRandomTimestamp_synthesized:
  assumes "is_double r" and "double_value r < 1"
  shows "synthesized w (generateRandomTimestamp (dateNow w k) r)"
  using generateRandomTimestamp_index [OF assms, of "dateNow w k"]
  unfolding synthesized_def by blast

lemma set_map_set: "set (map_set k v m) \<subseteq> insert (k, v) (set m)"
  by (induction m) auto

lemma addContributor_synthesized:
  assumes draws: "\<forall>k. is_double (mathRandom w k) \<and> double_value (mathRandom w k) < 1"
    and m: "\<forall>p \<in> set (fst st). synthesized w (lastActivity (snd p))"
  shows "\<forall>p \<in> set (fst (addContributor w st c)). synthesized w (lastActivity (snd p))"
proof -
  obtain mp k where st: "st = (mp, k)" by (cases st)
  show ?thesis
  proof (cases "eligible c")
    case False
    then have "fst (addContributor w st c) = mp"
      by (auto simp: st addContributor_def eligible_def split: option.splits)
    with m st show ?thesis by simp
  next
    case True
    then obtain l where l: "gh_login c = Some l" "l \<noteq> []" "gh_type c = ''User''"
      by (auto simp: eligible_def split: option.splits)
    show ?thesis
    proof (cases "map_of mp l")
      case None
      have new: "synthesized w (generateRandomTimestamp (dateNow w k) (mathRandom w k))"
        using draws by (simp add: generateRandomTimestamp_synthesized)
      show ?thesis
        using None l m new set_map_set
        by (fastforce simp: st addContributor_def)
    next
      case (Some existing)
      then have "(l, existing) \<in> set mp" by (rule map_of_SomeD)
      then have "synthesized w (lastActivity existing)" using m st by fastforce
      then show ?thesis
        using Some l m set_map_set
        by (fastforce simp: st addContributor_def)
    qed
  qed
qed

lemma forEach_synthesized:
  assumes "\<forall>k. is_double (mathRandom w k) \<and> double_value (mathRandom w k) < 1"
  shows "\<forall>p \<in> set (fst st). synthesized w (lastActivity (snd p)) \<Longrightarrow>
         \<forall>p \<in> set (fst (foldl (addContributor w) st cs)). synthesized w (lastActivity (snd p))"
proof (induction cs arbitrary: st)
  case Nil
  then show ?case by simp
next
  case (Cons c cs)
  from Cons.IH [OF addContributor_synthesized [OF assms Cons.prems]]
  show ?case by simp
qed

lemma mergeRepo_synthesized:
  assumes "\<forall>k. is_double (mathRandom w k) \<and> double_value (mathRandom w k) < 1"
    and "\<forall>p \<in> set (fst st). synthesized w (lastActivity (snd p))"
  shows "\<forall>p \<in> set (fst (mergeRepo w st rp)). synthesized w (lastActivity (snd p))"
  using assms forEach_synthesized [OF assms(1), of st]
  by (cases "contributorsResponse rp") (simp_all add: mergeRepo_def)

lemma mergeRepos_synthesized:
  assumes "\<forall>k. is_double (mathRandom w k) \<and> double_value (mathRandom w k) < 1"
  shows "\<forall>p \<in> set (fst st). synthesized w (lastActivity (snd p)) \<Longrightarrow>
         \<forall>p \<in> set (fst (foldl (mergeRepo w) st repos)). synthesized w (lastActivity (snd p))"
proof (induction repos arbitrary: st)
  case Nil
  then show ?case by simp
next
  case (Cons rp repos)
  from Cons.IH [OF mergeRepo_synthesized [OF assms Cons.prems]]
  show ?case by simp
qed

lemma set_insertBy: "set (insertBy cmp x xs) = insert x (set xs)"
  by (induction xs) auto

lemma set_sortBy: "set (sortBy cmp xs) = set xs"
  unfolding sortBy_def by (induction xs) (simp_all add: set_insertBy)

lemma fetch_synthesized:
  assumes draws: "\<forall>k. is_double (mathRandom w k) \<and> double_value (mathRandom w k) < 1"
    and ok: "fetchLiveContributors w = Inr (cs, acts)" and c: "c \<in> set cs"
  shows "synthesized w (lastActivity c)"
proof -
  from ok obtain repos where repos: "reposResponse w = JsonArray repos"
    by (auto simp: fetchLiveContributors_def split: fetched.splits)
  obtain m k where mk: "mergeRepos w (take 8 repos) = (m, k)"
    by (cases "mergeRepos w (take 8 repos)")
  from ok repos mk
  have cs: "cs = take 15 (sortBy (\<lambda>a b. contributions b - contributions a) (map snd m))"
    by (auto simp: fetchLiveContributors_def Let_def split: if_splits)
  from c have "c \<in> set (map snd m)"
    unfolding cs using in_set_takeD set_sortBy by fastforce
  then obtain p where p: "p \<in> set m" "c = snd p" by auto
  have "\<forall>p \<in> set (fst (foldl (mergeRepo w) ([], 0) (take 8 repos))).
          synthesized w (lastActivity (snd p))"
    by (rule mergeRepos_synthesized [OF draws]) simp
  with mk p show ?thesis by (simp add: mergeRepos_def)
qed

lemma fetch_alice:
  "fetchLiveContributors (listing [alice]) =
     Inr ([\<lparr>id_c = ''1'', login = ''alice'', avatar_url = ''a.png'', contributions = 5,
             html_url = ''a'', lastActivity = Some 171000000\<rparr>],
          [\<lparr>contributor = \<lparr>id_c = ''1'', login = ''alice'', avatar_url = ''a.png'',
               contributions = 5, html_url = ''a'', lastActivity = Some 171000000\<rparr>,
            action = Some Starred, timestamp = Some 171000000\<rparr>])"
  by code_simp

lemma fetch_alice_bob:
  "fetchLiveContributors (listing [alice, bob]) =
     Inr ([\<lparr>id_c = ''2'', login = ''bob'', avatar_url = ''b.png'', contributions = 7,
             html_url = ''b'', lastActivity = Some 171000000\<rparr>,
           \<lparr>id_c = ''1'', login = ''alice'', avatar_url = ''a.png'', contributions = 5,
             html_url = ''a'', lastActivity = Some 171000000\<rparr>],
          [\<lparr>contributor = \<lparr>id_c = ''2'', login = ''bob'', avatar_url = ''b.png'',
               contributions = 7, html_url = ''b'', lastActivity = Some 171000000\<rparr>,
            action = Some Starred, timestamp = Some 171000000\<rparr>,
           \<lparr>contributor = \<lparr>id_c = ''1'', login = ''alice'', avatar_url = ''a.png'',
               contributions = 5, html_url = ''a'', lastActivity = Some 171000000\<rparr>,
            action = Some Starred, timestamp = Some 171000000\<rparr>])"
  by code_simp

lemma fetch_failedListing: "fetchLiveContributors failedListing = Inl (GitHubApiError 403)"
  by (simp add: fetchLiveContributors_def failedListing_def)

text \<open>
  C9. For every draw \<open>r\<close> of \<open>Math.random()\<close>, a double with \<open>0 \<le> r < 1\<close>, the index
  \<open>Math.floor(r * 9)\<close>, computed on the rounded double product, is within the nine
  offsets 30 s, 2 min, 5 min, 10 min, 30 min, 1 h, 2 h, 1 d, 2 d, and
  \<open>generateRandomTimestamp\<close> returns the current time minus the offset at that index.
  Hence every \<open>lastActivity\<close> that a successful fetch stores is a value of \<open>Date.now()\<close>
  minus one of the nine offsets.
\<close>

theorem generateRandomTimestamp_offset:
  assumes "is_double r" and "double_value r < 1"
    and "\<forall>k. is_double (mathRandom w k) \<and> double_value (mathRandom w k) < 1"
    and "fetchLiveContributors w = Inr (cs, acts)" and "c \<in> set cs"
  shows "(\<exists>i. i < length timeOffsets
            \<and> Math_floor (times_double r (length timeOffsets)) = int i
            \<and> generateRandomTimestamp now r = Some (now - timeOffsets ! i))
       \<and> length timeOffsets = 9
       \<and> set timeOffsets =
           {30000, 120000, 300000, 600000, 1800000, 3600000, 7200000, 86400000, 172800000}
       \<and> (\<exists>k i. i < length timeOffsets
              \<and> lastActivity c = Some (dateNow w k - timeOffsets ! i))"
proof -
  have "length timeOffsets = 9" by (simp add: timeOffsets_def)
  moreover have "set timeOffsets =
      {30000, 120000, 300000, 600000, 1800000, 3600000, 7200000, 86400000, 172800000}"
    by (simp add: timeOffsets_def)
  moreover note generateRandomTimestamp_index [OF assms(1,2), of now]
  moreover have "\<exists>k i. i < length timeOffsets
      \<and> lastActivity c = Some (dateNow w k - timeOffsets ! i)"
    using fetch_synthesized [OF assms(3,4,5)] by (simp add: synthesized_def)
  ultimately show ?thesis by blast
qed

theorem generateRandomTimestamp_offset_witness:
  "is_double below_four_ninths \<and> double_value below_four_ninths < 1
   \<and> (\<forall>k. is_double (mathRandom (listing [alice]) k)
          \<and> double_value (mathRandom (listing [alice]) k) < 1)
   \<and> Math_floor (times_double below_four_ninths (length timeOffsets)) = 4
   \<and> generateRandomTimestamp 172800000 below_four_ninths = Some (172800000 - 1800000)
   \<and> (\<exists>k i. i < length timeOffsets
          \<and> Some (171000000::int) = Some (dateNow (listing [alice]) k - timeOffsets ! i))"
proof -
  define stored where "stored = \<lparr>id_c = ''1'', login = ''alice'', avatar_url = ''a.png'',
    contributions = 5, html_url = ''a'', lastActivity = Some 171000000\<rparr>"
  have draws: "\<forall>k. is_double (mathRandom (listing [alice]) k)
      \<and> double_value (mathRandom (listing [alice]) k) < 1"
    by (simp add: listing_def is_double_def double_value_def)
  have r: "is_double below_four_ninths" "double_value below_four_ninths < 1"
    by (simp_all add: below_four_ninths_def is_double_def double_value_def)
  have mem: "stored \<in> set [stored]" by simp
  have idx: "Math_floor (times_double below_four_ninths (length timeOffsets)) = 4"
    by code_simp
  have gen: "generateRandomTimestamp 172800000 below_four_ninths = Some (172800000 - 1800000)"
    by code_simp
  from generateRandomTimestamp_offset
         [OF r draws fetch_alice [folded stored_def] mem, of 172800000]
  have "\<exists>k i. i < length timeOffsets
          \<and> lastActivity stored = Some (dateNow (listing [alice]) k - timeOffsets ! i)"
    by blast
  then have "\<exists>k i. i < length timeOffsets
          \<and> Some (171000000::int) = Some (dateNow (listing [alice]) k - timeOffsets ! i)"
    by (simp add: stored_def)
  with draws r idx gen show ?thesis by blast
qed

section \<open>The merge of the contributor lists\<close>

lemma map_of_map_set: "map_of (map_set k v m) = (map_of m)(k \<mapsto> v)"
  by (induction m) (auto simp: fun_eq_iff)

lemma map_fst_map_set:
  "map fst (map_set k v m) = (if k \<in> set (map fst m) then map fst m else map fst m @ [k])"
  by (induction m) auto

lemma merged_spec_snoc_other:
  "\<not> (eligible c \<and> gh_login c = Some l) \<Longrightarrow> merged_spec (rs @ [c]) l = merged_spec rs l"
  by (auto simp: merged_spec_def)

lemma merged_spec_snoc_first:
  assumes "eligible c" and "gh_login c = Some l" and "merged_spec rs l = None"
  shows "merged_spec (rs @ [c]) l =
           Some (numberToString (gh_id c), l, gh_avatar_url c, gh_html_url c, gh_contributions c)"
  using assms by (auto simp: merged_spec_def Let_def split: list.splits)

lemma merged_spec_snoc_again:
  assumes "eligible c" and "gh_login c = Some l" and "merged_spec rs l = Some (i, l', a, h, n)"
  shows "merged_spec (rs @ [c]) l = Some (i, l', a, h, n + gh_contributions c)"
  using assms by (auto simp: merged_spec_def Let_def split: list.splits)

lemma addContributor_inv:
  assumes "merge_inv m rs"
  shows "merge_inv (fst (addContributor w (m, k) c)) (rs @ [c])"
proof (cases "eligible c")
  case False
  then have "fst (addContributor w (m, k) c) = m"
    by (auto simp: addContributor_def eligible_def split: option.splits)
  moreover have "\<And>l. merged_spec (rs @ [c]) l = merged_spec rs l"
    using False by (simp add: merged_spec_snoc_other)
  ultimately show ?thesis using assms by (simp add: merge_inv_def)
next
  case True
  then obtain l0 where l0: "gh_login c = Some l0" "l0 \<noteq> []" "gh_type c = ''User''"
    by (auto simp: eligible_def split: option.splits)
  have other: "merged_spec (rs @ [c]) l = merged_spec rs l" if "l \<noteq> l0" for l
    using that l0 by (simp add: merged_spec_snoc_other)
  have dist: "distinct (map fst m)"
    and spec: "\<And>l. map_option summary (map_of m l) = merged_spec rs l"
    using assms by (simp_all add: merge_inv_def)
  show ?thesis
  proof (cases "map_of m l0")
    case None
    define new where "new = \<lparr>id_c = numberToString (gh_id c), login = l0,
        avatar_url = gh_avatar_url c, contributions = gh_contributions c,
        html_url = gh_html_url c,
        lastActivity = generateRandomTimestamp (dateNow w k) (mathRandom w k)\<rparr>"
    have m': "fst (addContributor w (m, k) c) = map_set l0 new m"
      using None l0 by (simp add: addContributor_def new_def)
    have notin: "l0 \<notin> set (map fst m)"
      using None by (simp add: map_of_eq_None_iff)
    have "merged_spec rs l0 = None" using spec [of l0] None by simp
    then have "merged_spec (rs @ [c]) l0 = Some (summary new)"
      using merged_spec_snoc_first [OF True l0(1)] by (simp add: summary_def new_def)
    then have "map_option summary (map_of (map_set l0 new m) l) = merged_spec (rs @ [c]) l" for l
      using spec [of l] other [of l] by (cases "l = l0") (simp_all add: map_of_map_set)
    moreover have "distinct (map fst (map_set l0 new m))"
      using dist notin by (simp add: map_fst_map_set)
    ultimately show ?thesis unfolding m' merge_inv_def by blast
  next
    case (Some existing)
    define upd where
      "upd = existing\<lparr>contributions := contributions existing + gh_contributions c\<rparr>"
    have m': "fst (addContributor w (m, k) c) = map_set l0 upd m"
      using Some l0 by (simp add: addContributor_def upd_def)
    have isin: "l0 \<in> set (map fst m)"
      using Some by (metis map_of_eq_None_iff option.distinct(1) set_map)
    have "merged_spec rs l0 = Some (summary existing)" using spec [of l0] Some by simp
    then have "merged_spec (rs @ [c]) l0 = Some (summary upd)"
      using merged_spec_snoc_again [OF True l0(1), of rs]
      by (simp add: summary_def upd_def)
    then have "map_option summary (map_of (map_set l0 upd m) l) = merged_spec (rs @ [c]) l" for l
      using spec [of l] other [of l] by (cases "l = l0") (simp_all add: map_of_map_set)
    moreover have "distinct (map fst (map_set l0 upd m))"
      using dist isin by (simp add: map_fst_map_set)
    ultimately show ?thesis unfolding m' merge_inv_def by blast
  qed
qed

lemma forEach_inv:
  "merge_inv (fst st) rs \<Longrightarrow> merge_inv (fst (foldl (addContributor w) st cs)) (rs @ cs)"
proof (induction cs arbitrary: st rs)
  case Nil
  then show ?case by simp
next
  case (Cons c cs)
  obtain m k where st: "st = (m, k)" by (cases st)
  have "merge_inv (fst (addContributor w st c)) (rs @ [c])"
    using Cons.prems addContributor_inv [of m rs w k c] by (simp add: st)
  from Cons.IH [OF this] show ?case by simp
qed

lemma mergeRepo_inv:
  "merge_inv (fst st) rs \<Longrightarrow> merge_inv (fst (mergeRepo w st rp)) (rs @ arrayOf rp)"
  by (cases "contributorsResponse rp") (simp_all add: mergeRepo_def arrayOf_def forEach_inv)

lemma mergeRepos_inv:
  "merge_inv (fst st) rs \<Longrightarrow>
     merge_inv (fst (foldl (mergeRepo w) st repos)) (rs @ fetchedRecords repos)"
proof (induction repos arbitrary: st rs)
  case Nil
  then show ?case by (simp add: fetchedRecords_def)
next
  case (Cons rp repos)
  from Cons.IH [OF mergeRepo_inv [OF Cons.prems, of w rp]]
  show ?case by (simp add: fetchedRecords_def)
qed

text \<open>
  C2. For every sequence of repositories with their contributor lists, the map built by
  the merge has one entry per login. A login has an entry exactly when some fetched
  record with a login and the account type \<^verbatim>\<open>User\<close> carries it; records without a
  login or of another account type add nothing. The entry holds that login, the id,
  avatar URL and profile URL of the first such record, and the sum of the contribution
  counts of all such records.
\<close>

theorem merge_by_login:
  "distinct (map fst (fst (mergeRepos w repos)))
   \<and> (\<forall>l. map_option summary (map_of (fst (mergeRepos w repos)) l)
            = merged_spec (fetchedRecords repos) l)"
proof -
  have "merge_inv (fst ([], 0::nat)) []"
    by (simp add: merge_inv_def merged_spec_def)
  from mergeRepos_inv [OF this, of w repos]
  show ?thesis by (simp add: mergeRepos_def merge_inv_def)
qed

section \<open>The stored lists\<close>

lemma length_insertBy: "length (insertBy cmp x xs) = Suc (length xs)"
  by (induction xs) simp_all

lemma length_sortBy: "length (sortBy cmp xs) = length xs"
  unfolding sortBy_def by (induction xs) (simp_all add: length_insertBy)

lemma sortBy_eq_Nil: "sortBy cmp xs = [] \<longleftrightarrow> xs = []"
  using length_sortBy [of cmp xs] by (metis length_0_conv)

lemma sorted_insertBy:
  fixes key :: "'a \<Rightarrow> int"
  assumes "sorted_wrt (\<lambda>a b. key a \<ge> key b) xs"
  shows "sorted_wrt (\<lambda>a b. key a \<ge> key b) (insertBy (\<lambda>a b. key b - key a) x xs)"
  using assms by (induction xs) (auto simp: set_insertBy)

lemma sorted_sortBy:
  fixes key :: "'a \<Rightarrow> int"
  shows "sorted_wrt (\<lambda>a b. key a \<ge> key b) (sortBy (\<lambda>a b. key b - key a) xs)"
  unfolding sortBy_def by (induction xs) (simp_all add: sorted_insertBy)

lemma synthesizeActivities_contributor: "map contributor (synthesizeActivities w k cs) = cs"
proof -
  have "map contributor (synthesizeActivities w k cs) = map snd (zip [0 ..< length cs] cs)"
    by (simp add: synthesizeActivities_def case_prod_beta comp_def)
  then show ?thesis by (simp add: map_snd_zip)
qed

lemma synthesizeActivities_timestamp:
  "map timestamp (synthesizeActivities w k cs) = map lastActivity cs"
proof -
  have "map timestamp (synthesizeActivities w k cs)
          = map (\<lambda>x. lastActivity (snd x)) (zip [0 ..< length cs] cs)"
    by (simp add: synthesizeActivities_def case_prod_beta comp_def)
  also have "\<dots> = map lastActivity (map snd (zip [0 ..< length cs] cs))"
    by (simp only: map_map comp_def)
  also have "\<dots> = map lastActivity cs"
    by (simp add: map_snd_zip)
  finally show ?thesis .
qed

lemma fetch_success:
  assumes "fetchLiveContributors w = Inr (cs, acts)"
  shows "sorted_wrt (\<lambda>a b. contributions a \<ge> contributions b) cs
       \<and> length cs \<le> 15 \<and> cs \<noteq> []
       \<and> map contributor acts = cs \<and> map timestamp acts = map lastActivity cs"
  using assms
  by (auto simp: fetchLiveContributors_def Let_def sorted_sortBy
        synthesizeActivities_contributor synthesizeActivities_timestamp
      intro: sorted_wrt_take
      split: fetched.splits prod.splits if_splits)

lemma state_inv_mount: "state_inv (mount t)"
  by (simp add: state_inv_def mount_def)

lemma state_inv_step: "state_inv s \<Longrightarrow> state_inv (step s ev)"
proof (cases ev)
  case (FetchSettles i w)
  assume inv: "state_inv s"
  show ?thesis
  proof (cases "fetchLiveContributors w")
    case (Inl err)
    with inv FetchSettles show ?thesis by (simp add: state_inv_def Let_def)
  next
    case (Inr p)
    obtain cs acts where p: "p = (cs, acts)" by (cases p)
    from fetch_success [OF Inr [unfolded p]] inv FetchSettles Inr p
    show ?thesis by (simp add: state_inv_def Let_def fetchEffect_def)
  qed
qed (auto simp: state_inv_def fetchEffect_def Let_def split: rendered.splits option.splits)

lemma state_inv_run: "state_inv s \<Longrightarrow> state_inv (run s evs)"
  unfolding run_def by (induction evs arbitrary: s) (simp_all add: state_inv_step)

text \<open>
  C6. When a run of the fetch succeeds, the contributor list it stores is sorted by
  contribution count in descending order and has at most 15 elements; so is the stored
  list after any sequence of events since mount.
\<close>

theorem stored_contributors_sorted:
  assumes "i < length (inFlight s)" and "fetchLiveContributors w = Inr (cs, acts)"
  shows "contributors (step s (FetchSettles i w)) = cs
       \<and> sorted_wrt (\<lambda>a b. contributions a \<ge> contributions b) cs
       \<and> length cs \<le> 15
       \<and> sorted_wrt (\<lambda>a b. contributions a \<ge> contributions b)
           (contributors (run (mount t) evs))
       \<and> length (contributors (run (mount t) evs)) \<le> 15"
proof -
  have "contributors (step s (FetchSettles i w)) = cs"
    using assms by (simp add: Let_def fetchEffect_def)
  moreover note fetch_success [OF assms(2)]
  moreover have "state_inv (run (mount t) evs)"
    by (rule state_inv_run) (rule state_inv_mount)
  ultimately show ?thesis by (simp add: state_inv_def)
qed

theorem stored_contributors_sorted_witness:
  "0 < length (inFlight (mount 0))
   \<and> map contributions
        (contributors (step (mount 0) (FetchSettles 0 (listing [alice, bob])))) = [7, 5]
   \<and> sorted_wrt (\<lambda>a b. contributions a \<ge> contributions b)
        (contributors (step (mount 0) (FetchSettles 0 (listing [alice, bob]))))"
proof -
  have a: "0 < length (inFlight (mount 0))" by (simp add: mount_def)
  from stored_contributors_sorted [OF a fetch_alice_bob, of 0 "[]"]
  show ?thesis using a by simp
qed

lemma step_lists:
  "(contributors (step s ev), activities (step s ev)) =
     (case ev of
        FetchSettles i w \<Rightarrow>
          (if i < length (inFlight s)
           then (case fetchLiveContributors w of
                   Inr p \<Rightarrow> p
                 | Inl err \<Rightarrow> (contributors s, activities s))
           else (contributors s, activities s))
      | _ \<Rightarrow> (contributors s, activities s))"
  by (cases ev)
     (auto simp: fetchEffect_def Let_def
           split: sum.splits rendered.splits option.splits prod.splits)

lemma run_lists:
  "(contributors (run s evs), activities (run s evs))
     = lastFetched (contributors s, activities s) s evs"
proof (induction evs arbitrary: s)
  case Nil
  then show ?case by (simp add: run_def)
next
  case (Cons ev evs)
  have "(contributors (run s (ev # evs)), activities (run s (ev # evs)))
          = (contributors (run (step s ev) evs), activities (run (step s ev) evs))"
    by (simp add: run_def)
  also have "\<dots> = lastFetched (contributors (step s ev), activities (step s ev)) (step s ev) evs"
    by (rule Cons.IH)
  also have "\<dots> = lastFetched (contributors s, activities s) s (ev # evs)"
    by (simp only: step_lists lastFetched.simps)
  finally show ?case .
qed

text \<open>
  C7. A run of the fetch that succeeds stores the contributor list and the activity
  list it built; the activity list has the length of the contributor list, its events
  carry the contributors one by one in the same order, and the timestamp of each event
  is the \<open>lastActivity\<close> of its contributor. After any sequence of events since mount the
  two stored lists are those of the most recent successful run (both empty when there
  was none), so they stand in the same relation at every point of the lifetime.
\<close>

theorem activities_mirror_contributors:
  assumes "i < length (inFlight s)" and "fetchLiveContributors w = Inr (cs, acts)"
  shows "contributors (step s (FetchSettles i w)) = cs
       \<and> activities (step s (FetchSettles i w)) = acts
       \<and> length acts = length cs
       \<and> map contributor acts = cs
       \<and> map timestamp acts = map lastActivity cs
       \<and> (contributors (run (mount t) evs), activities (run (mount t) evs))
           = lastFetched ([], []) (mount t) evs
       \<and> length (activities (run (mount t) evs)) = length (contributors (run (mount t) evs))
       \<and> map contributor (activities (run (mount t) evs)) = contributors (run (mount t) evs)
       \<and> map timestamp (activities (run (mount t) evs))
           = map lastActivity (contributors (run (mount t) evs))"
proof -
  have stored: "contributors (step s (FetchSettles i w)) = cs
      \<and> activities (step s (FetchSettles i w)) = acts"
    using assms by (simp add: Let_def fetchEffect_def)
  have built: "map contributor acts = cs \<and> map timestamp acts = map lastActivity cs"
    using fetch_success [OF assms(2)] by simp
  then have len: "length acts = length cs" by (metis length_map)
  have latest: "(contributors (run (mount t) evs), activities (run (mount t) evs))
      = lastFetched ([], []) (mount t) evs"
    using run_lists [of "mount t" evs] by (simp add: mount_def)
  have inv: "state_inv (run (mount t) evs)"
    by (rule state_inv_run) (rule state_inv_mount)
  then have mirror: "map contributor (activities (run (mount t) evs)) = contributors (run (mount t) evs)
      \<and> map timestamp (activities (run (mount t) evs))
          = map lastActivity (contributors (run (mount t) evs))"
    by (simp add: state_inv_def)
  then have "length (activities (run (mount t) evs)) = length (contributors (run (mount t) evs))"
    by (metis length_map)
  with stored built len latest mirror show ?thesis by blast
qed

theorem activities_mirror_contributors_witness:
  "0 < length (inFlight (mount 0))
   \<and> map login (contributors (step (mount 0) (FetchSettles 0 (listing [alice, bob]))))
       = [''bob'', ''alice'']
   \<and> map (login \<circ> contributor)
        (activities (step (mount 0) (FetchSettles 0 (listing [alice, bob]))))
       = [''bob'', ''alice'']
   \<and> map timestamp (activities (step (mount 0) (FetchSettles 0 (listing [alice, bob]))))
       = [Some 171000000, Some 171000000]
   \<and> lastFetched ([], []) (mount 0) [FetchSettles 0 (listing [alice, bob])]
       = (contributors (run (mount 0) [FetchSettles 0 (listing [alice, bob])]),
          activities (run (mount 0) [FetchSettles 0 (listing [alice, bob])]))"
proof -
  have a: "0 < length (inFlight (mount 0))" by (simp add: mount_def)
  from activities_mirror_contributors
         [OF a fetch_alice_bob, of 0 "[FetchSettles 0 (listing [alice, bob])]"]
  show ?thesis using a by simp
qed

section \<open>Retries, rendering and rotation\<close>

lemma fetch_fails_iff:
  "(\<exists>err. fetchLiveContributors w = Inl err) \<longleftrightarrow>
     (case reposResponse w of
        JsonArray repos \<Rightarrow> fst (mergeRepos w (take 8 repos)) = []
      | _ \<Rightarrow> True)"
  by (auto simp: fetchLiveContributors_def Let_def sortBy_eq_Nil
      split: fetched.splits prod.splits)

lemmas run_simps = run_def mount_def fetchEffect_def remove_nth_def render_def at_index_def
  fetch_failedListing fetch_alice fetch_alice_bob

text \<open>
  C3, as stated, does not hold: after three consecutive failures since mount (the
  first run and two retries) a retry is pending, with a delay of 15000 ms.
\<close>

theorem three_failures_schedule_retry:
  "retryTimers (run (mount 0)
     [FetchSettles 0 failedListing, RetryTimeout 0,
      FetchSettles 0 failedListing, RetryTimeout 0,
      FetchSettles 0 failedListing]) = [15000]"
  by (simp add: run_simps)

text \<open>
  C3, amended. A run of the fetch fails exactly when the repository listing is rejected,
  is not \<^verbatim>\<open>ok\<close>, is not an array, or no contributor was gathered. When a run that holds
  the retry count \<open>rc\<close> fails, one retry with the delay \<open>5000 * (rc + 1)\<close> ms is scheduled
  if \<open>rc < 3\<close> and none otherwise, and no fetch is started. From mount, the first three
  consecutive failures schedule retries after 5000, 10000 and 15000 ms; after the fourth
  (the first run and its three retries) no retry is pending and no fetch is running.
\<close>

theorem retry_policy:
  assumes "i < length (inFlight s)" and "fetchLiveContributors w = Inl err"
    and "fetchLiveContributors w1 = Inl e1" and "fetchLiveContributors w2 = Inl e2"
    and "fetchLiveContributors w3 = Inl e3" and "fetchLiveContributors w4 = Inl e4"
  shows "((\<exists>e. fetchLiveContributors w' = Inl e) \<longleftrightarrow>
            (case reposResponse w' of
               JsonArray repos \<Rightarrow> fst (mergeRepos w' (take 8 repos)) = []
             | _ \<Rightarrow> True))
       \<and> retryTimers (step s (FetchSettles i w)) =
           retryTimers s @ (if inFlight s ! i < 3 then [5000 * (inFlight s ! i + 1)] else [])
       \<and> inFlight (step s (FetchSettles i w)) = remove_nth i (inFlight s)
       \<and> retryTimers (run (mount t) [FetchSettles 0 w1]) = [5000 * 1]
       \<and> retryTimers (run (mount t) [FetchSettles 0 w1, RetryTimeout 0, FetchSettles 0 w2])
           = [5000 * 2]
       \<and> retryTimers (run (mount t) [FetchSettles 0 w1, RetryTimeout 0, FetchSettles 0 w2,
            RetryTimeout 0, FetchSettles 0 w3]) = [5000 * 3]
       \<and> retryTimers (run (mount t) [FetchSettles 0 w1, RetryTimeout 0, FetchSettles 0 w2,
            RetryTimeout 0, FetchSettles 0 w3, RetryTimeout 0, FetchSettles 0 w4]) = []
       \<and> inFlight (run (mount t) [FetchSettles 0 w1, RetryTimeout 0, FetchSettles 0 w2,
            RetryTimeout 0, FetchSettles 0 w3, RetryTimeout 0, FetchSettles 0 w4]) = []"
proof -
  have "retryTimers (step s (FetchSettles i w)) =
           retryTimers s @ (if inFlight s ! i < 3 then [5000 * (inFlight s ! i + 1)] else [])
       \<and> inFlight (step s (FetchSettles i w)) = remove_nth i (inFlight s)"
    using assms(1,2) by (simp add: Let_def)
  moreover have
    "retryTimers (run (mount t) [FetchSettles 0 w1]) = [5000 * 1]
       \<and> retryTimers (run (mount t) [FetchSettles 0 w1, RetryTimeout 0, FetchSettles 0 w2])
           = [5000 * 2]
       \<and> retryTimers (run (mount t) [FetchSettles 0 w1, RetryTimeout 0, FetchSettles 0 w2,
            RetryTimeout 0, FetchSettles 0 w3]) = [5000 * 3]
       \<and> retryTimers (run (mount t) [FetchSettles 0 w1, RetryTimeout 0, FetchSettles 0 w2,
            RetryTimeout 0, FetchSettles 0 w3, RetryTimeout 0, FetchSettles 0 w4]) = []
       \<and> inFlight (run (mount t) [FetchSettles 0 w1, RetryTimeout 0, FetchSettles 0 w2,
            RetryTimeout 0, FetchSettles 0 w3, RetryTimeout 0, FetchSettles 0 w4]) = []"
    using assms(3-6) by (simp add: run_def mount_def fetchEffect_def remove_nth_def)
  ultimately show ?thesis using fetch_fails_iff [of w'] by blast
qed

theorem retry_policy_witness:
  "0 < length (inFlight (mount 0))
   \<and> fetchLiveContributors failedListing = Inl (GitHubApiError 403)
   \<and> retryTimers (step (mount 0) (FetchSettles 0 failedListing)) = [5000]
   \<and> retryTimers (run (mount 0) four_failures) = []
   \<and> inFlight (run (mount 0) four_failures) = []"
proof -
  have a: "0 < length (inFlight (mount 0))" by (simp add: mount_def)
  note f = fetch_failedListing
  from retry_policy [OF a f f f f f, of failedListing 0]
  show ?thesis using a f by (simp add: four_failures_def mount_def)
qed

text \<open>
  C8. Whenever the component is not loading and the activity list is empty, the render
  function returns \<^verbatim>\<open>null\<close>: it renders nothing and throws nothing. This is the
  case after the first run and its three retries have all failed.
\<close>

theorem render_no_activities:
  assumes "\<not> loading s" and "activities s = []"
  shows "render s = Null"
  using assms by (simp add: render_def)

theorem render_no_activities_witness:
  "\<not> loading (run (mount 0) four_failures)
   \<and> activities (run (mount 0) four_failures) = []
   \<and> render (run (mount 0) four_failures) = Null"
proof -
  have a: "\<not> loading (run (mount 0) four_failures)"
    by (simp add: four_failures_def run_simps)
  have b: "activities (run (mount 0) four_failures) = []"
    by (simp add: four_failures_def run_simps)
  from a b render_no_activities [OF a b] show ?thesis by blast
qed

text \<open>
  Once the visible flag is false, no event makes it true again.
\<close>

lemma dismissed_stays_dismissed: "\<not> isVisible s \<Longrightarrow> \<not> isVisible (step s ev)"
  by (cases ev)
     (auto simp: fetchEffect_def Let_def
           split: sum.splits rendered.splits option.splits prod.splits)

lemma dismissed_run: "\<not> isVisible s \<Longrightarrow> \<not> isVisible (run s evs)"
  unfolding run_def by (induction evs arbitrary: s) (simp_all add: dismissed_stays_dismissed)

lemma dismissed_not_loading_renders_nothing:
  "\<not> isVisible s \<Longrightarrow> \<not> loading s \<Longrightarrow> render s = Null \<or> render s = AnimatePresence None"
  by (simp add: render_def Let_def)

text \<open>
  C4. The first run fails, its retry succeeds with one contributor, the run that the
  reset of the retry count starts fails, the user closes the card, and the retry
  timeout fires. After the click the component renders no card; after the timeout the
  visible flag is still false and the component renders the loading placeholder.
\<close>

theorem dismissed_widget_shows_loading:
  "render (run (mount 0)
      [FetchSettles 0 failedListing, RetryTimeout 0, FetchSettles 0 (listing [alice]),
       FetchSettles 0 failedListing, CloseClick]) = AnimatePresence None
   \<and> isVisible (run (mount 0)
      [FetchSettles 0 failedListing, RetryTimeout 0, FetchSettles 0 (listing [alice]),
       FetchSettles 0 failedListing, CloseClick, RetryTimeout 0]) = False
   \<and> render (run (mount 0)
      [FetchSettles 0 failedListing, RetryTimeout 0, FetchSettles 0 (listing [alice]),
       FetchSettles 0 failedListing, CloseClick, RetryTimeout 0]) = LoadingPlaceholder"
  by (simp add: run_simps)

text \<open>
  A rotation tick on a non-empty activity list advances the index by one modulo the
  length of the list and leaves it within the list.
\<close>

lemma rotation_tick_in_bounds:
  "activities s \<noteq> [] \<Longrightarrow>
     currentActivityIndex (step s RotationInterval) =
       (currentActivityIndex s + 1) mod length (activities s)
     \<and> currentActivityIndex (step s RotationInterval)
         < length (activities (step s RotationInterval))"
  by simp

text \<open>
  C5. The first run fails, its retry succeeds with two contributors, the rotation
  ticks once, and the run that the reset of the retry count started succeeds with one
  contributor. The index is then 1 in an activity list of length 1, and rendering
  throws on the activity that is not there.
\<close>

theorem shorter_list_index_out_of_bounds:
  "currentActivityIndex (run (mount 0)
      [FetchSettles 0 failedListing, RetryTimeout 0, FetchSettles 0 (listing [alice, bob]),
       RotationInterval, FetchSettles 0 (listing [alice])]) = 1
   \<and> length (activities (run (mount 0)
      [FetchSettles 0 failedListing, RetryTimeout 0, FetchSettles 0 (listing [alice, bob]),
       RotationInterval, FetchSettles 0 (listing [alice])])) = 1
   \<and> render (run (mount 0)
      [FetchSettles 0 failedListing, RetryTimeout 0, FetchSettles 0 (listing [alice, bob]),
       RotationInterval, FetchSettles 0 (listing [alice])]) = TypeError"
  by (simp add: run_simps)

end
